theory Spec2Isabelle
  imports Main "HOL-Library.Word"
begin

section \<open>fixmszip: the locator and patcher of \<open>fixmszip.c\<close>\<close>

text \<open>
  The program maps the tail of a zip file, scans it backwards for the End Of Central
  Directory Record (EOCDR) and sets the low byte of the "total number of disks" field of
  the Zip64 End Of Central Directory Locator (EOCDL) in front of it.

  The file is a list of bytes. The loop works on the memory of the process, which is
  a list of bytes too, indexed by address. Addresses are counted so that the pointer
  \<open>fptr + k\<close> is the number \<open>offsize + k\<close>: \<open>fptr\<close> is the file offset \<open>offsize\<close> handed
  to \<open>mmap\<close>, and pointer arithmetic is integer arithmetic (\<open>ptrdiff_t\<close>, \<open>off_t\<close>: 64
  bits, no overflow on file sizes). \<open>deref\<close> and \<open>store\<close> read and write this memory,
  not the file.

  The kernel maps whole pages: the \<open>fsize\<close> bytes asked for, rounded up to a multiple
  of the page size, from \<open>fptr\<close> (\<open>in_pages\<close>). At an address in these pages the memory
  holds the byte of the file at that offset, and since the mapping is shared a store
  there reaches the file (\<open>memory\<close>, \<open>written\<close>). At any other address the memory
  holds bytes that are not the file's, a parameter of the model (\<open>foreign\<close>), and a
  store there leaves the file as it is. The narrower range that \<open>mmap\<close> was asked for
  is the predicate \<open>mapped\<close>. The loop reads addresses from 20 up to the file size
  only (\<open>visited_inv\<close>), so \<open>!\<close> is never applied outside the memory.

  The file is the regular file that \<open>filename\<close> names: \<open>st_size\<close> from \<open>lstat\<close> is its
  length. Results are the \<open>int\<close> the code returns: 1 for Updated, 0 for NoActionNeeded,
  -1 for Failed; the messages on standard error are not modelled.
\<close>

type_synonym byte = "8 word"

definition EOCDR_BASE_SIZE :: int where
  "EOCDR_BASE_SIZE = 22"

definition Z64_EOCDL_SIZE :: int where
  "Z64_EOCDL_SIZE = 20"

definition Z64_EOCDL_SIG :: nat where
  "Z64_EOCDL_SIG = 0x07064b50"

definition SIG_LEN :: nat where
  "SIG_LEN = 4"

text \<open>\<open>*p\<close> and \<open>*p = v\<close> on the memory \<open>m\<close> of the process.\<close>

definition deref :: "byte list \<Rightarrow> int \<Rightarrow> byte" where
  "deref m p = m ! nat p"

definition store :: "byte list \<Rightarrow> int \<Rightarrow> byte \<Rightarrow> byte list" where
  "store m p v = m[nat p := v]"

subsection \<open>ByteReader: \<open>get2bytes\<close>, \<open>get4bytes\<close>\<close>

text \<open>
  \<open>get2bytes\<close> computes in \<open>int\<close> and returns \<open>unsigned short\<close> (16 bits). The first
  argument is the global \<open>little_endian\<close>.
\<close>

definition get2bytes :: "bool \<Rightarrow> byte list \<Rightarrow> int \<Rightarrow> nat" where
  "get2bytes little_endian m ptr =
     (if little_endian
      then (unat (deref m (ptr + 1)) * 2 ^ 8 + unat (deref m ptr)) mod 2 ^ 16
      else (unat (deref m ptr) * 2 ^ 8 + unat (deref m (ptr + 1))) mod 2 ^ 16)"

text \<open>
  \<open>get4bytes\<close> accumulates in an \<open>unsigned int\<close> (32 bits); iteration \<open>i\<close> of its loop
  reads \<open>*ptr++\<close>, that is the byte at \<open>ptr + i\<close>. The shifted byte is added modulo
  \<open>2 ^ 32\<close>, as the conversion to \<open>unsigned int\<close> does on two's complement machines.
\<close>

definition get4bytes :: "bool \<Rightarrow> byte list \<Rightarrow> int \<Rightarrow> nat" where
  "get4bytes little_endian m ptr =
     (if little_endian
      then foldl (\<lambda>val i. (val + unat (deref m (ptr + int i)) * 2 ^ (8 * i)) mod 2 ^ 32)
             0 [0, 1, 2, 3]
      else foldl (\<lambda>val i. (val + unat (deref m (ptr + int i)) * 2 ^ (8 * (3 - i))) mod 2 ^ 32)
             0 [0, 1, 2, 3])"

subsection \<open>The scan loop of \<open>fixup\<close>\<close>

definition sig :: "byte list" where
  "sig = [0x50, 0x4b, 0x05, 0x06]"

text \<open>
  \<open>sig[i]\<close>. The array has four elements; a read at index 4 or above yields the byte
  that lies behind the array in the stack frame, which the model takes as a parameter.
\<close>

definition sig_at :: "byte \<Rightarrow> nat \<Rightarrow> byte" where
  "sig_at behind i = (if i < 4 then sig ! i else behind)"

text \<open>
  The variables of \<open>fixup\<close> that the loop reads and never assigns. \<open>behind p\<close> is the
  byte an out-of-range \<open>sig[i]\<close> yields in the iteration at pointer \<open>p\<close>. \<open>fsize\<close> is the
  value after line 118, the length handed to \<open>mmap\<close>.
\<close>

record locals =
  little_endian :: bool
  behind :: "int \<Rightarrow> byte"
  dryrun :: bool
  fptr :: int
  pageoff :: int
  fsize :: int

definition minptr :: "locals \<Rightarrow> int" where
  "minptr L = fptr L + pageoff L + Z64_EOCDL_SIZE"

definition startptr :: "locals \<Rightarrow> int" where
  "startptr L = fptr L + fsize L + pageoff L - EOCDR_BASE_SIZE + 3"

text \<open>
  The pointers that lie in the mapping: \<open>mmap\<close> is asked for \<open>fsize\<close> bytes, so they
  are \<open>fptr\<close> up to \<open>fptr + fsize - 1\<close>.
\<close>

definition mapped :: "locals \<Rightarrow> int \<Rightarrow> bool" where
  "mapped L p \<longleftrightarrow> fptr L \<le> p \<and> p < fptr L + fsize L"

text \<open>
  One iteration of the loop body: \<open>Continue i'\<close> goes on to \<open>--ptr\<close> with the new
  \<open>i\<close>; \<open>Break res m'\<close> leaves the loop with the value of \<open>res\<close> (0 from its
  initialisation unless the branch assigns it) and the file as the branch leaves it.
\<close>

datatype step = Continue nat | Break int "byte list"

text \<open>
  The cross-check of lines 147 to 149, as the condition under which the candidate is
  kept: the offset of the candidate in the window, the length of the EOCDR and the
  comment length add up to \<open>fsize\<close>.
\<close>

definition length_check :: "locals \<Rightarrow> byte list \<Rightarrow> int \<Rightarrow> bool" where
  "length_check L m ptr =
     (let comment_len = get2bytes (little_endian L) m (ptr + 20) in
      (ptr - fptr L) - pageoff L + EOCDR_BASE_SIZE + int comment_len = fsize L)"

definition body :: "locals \<Rightarrow> byte list \<Rightarrow> int \<Rightarrow> nat \<Rightarrow> step" where
  "body L m ptr i =
     (if deref m ptr = sig_at (behind L ptr) i then
        (if i = 0 then
           (if \<not> length_check L m ptr then Continue SIG_LEN
            else
              let this_disk = get2bytes (little_endian L) m (ptr + 4);
                  start_disk = get2bytes (little_endian L) m (ptr + 6) in
              if this_disk \<noteq> start_disk then Break (- 1) m
              else
                let cd_offset = get4bytes (little_endian L) m (ptr + 16) in
                if cd_offset \<noteq> 0xffffffff then Break 0 m
                else
                  let z64sig = get4bytes (little_endian L) m (ptr - Z64_EOCDL_SIZE) in
                  if z64sig \<noteq> Z64_EOCDL_SIG then Continue SIG_LEN
                  else
                    let numdisks = get4bytes (little_endian L) m (ptr - 4) in
                    if numdisks = 0
                    then Break 1 (if \<not> dryrun L then store m (ptr - 4) 1 else m)
                    else Break 0 m)
         else Continue (i - 1))
      else (if i \<noteq> 3 then Continue 3 else Continue i))"

text \<open>The loop \<open>for (...; ptr >= minptr; --ptr)\<close>, returning \<open>res\<close> and the file.\<close>

function scan :: "locals \<Rightarrow> byte list \<Rightarrow> int \<Rightarrow> nat \<Rightarrow> int \<times> byte list" where
  "scan L m ptr i =
     (if minptr L \<le> ptr then
        (case body L m ptr i of
           Continue i' \<Rightarrow> scan L m (ptr - 1) i'
         | Break res m' \<Rightarrow> (res, m'))
      else (0, m))"
  by pat_completeness auto
termination
  by (relation "measure (\<lambda>(L, m, ptr, i). nat (ptr - minptr L + 1))") auto

text \<open>
  The iterations the loop goes through: the pointer and the index \<open>i\<close> at the head of
  each one, in order.
\<close>

function visited :: "locals \<Rightarrow> byte list \<Rightarrow> int \<Rightarrow> nat \<Rightarrow> (int \<times> nat) list" where
  "visited L m ptr i =
     (if minptr L \<le> ptr then
        (ptr, i) # (case body L m ptr i of
                      Continue i' \<Rightarrow> visited L m (ptr - 1) i'
                    | Break res m' \<Rightarrow> [])
      else [])"
  by pat_completeness auto
termination
  by (relation "measure (\<lambda>(L, m, ptr, i). nat (ptr - minptr L + 1))") auto

declare scan.simps [simp del] visited.simps [simp del]

subsection \<open>\<open>fixup\<close>\<close>

text \<open>
  What \<open>fixup\<close> gets from outside: whether \<open>lstat\<close>, \<open>open\<close> and \<open>mmap\<close> succeed,
  \<open>getpagesize()\<close>, the global \<open>little_endian\<close> that \<open>main\<close> sets from the host, the
  bytes behind \<open>sig\<close> in the frame, and the bytes of the memory outside the mapped
  pages.
\<close>

record sys =
  lstat_ok :: bool
  open_ok :: bool
  mmap_ok :: bool
  getpagesize :: int
  host_little_endian :: bool
  frame :: "int \<Rightarrow> byte"
  foreign :: "int \<Rightarrow> byte"

text \<open>Lines 113 to 121: the offset and length of the mapping.\<close>

definition window :: "sys \<Rightarrow> byte list \<Rightarrow> bool \<Rightarrow> locals" where
  "window s file dry =
     (let fsize = int (length file) in
      if fsize > 65577 then
        (let offsize = fsize - 65577;
             pagesize = getpagesize s;
             pageoff = offsize mod pagesize;
             offsize = offsize - pageoff
         in \<lparr> little_endian = host_little_endian s, behind = frame s, dryrun = dry,
              fptr = offsize, pageoff = pageoff, fsize = 65577 \<rparr>)
      else \<lparr> little_endian = host_little_endian s, behind = frame s, dryrun = dry,
             fptr = 0, pageoff = 0, fsize = fsize \<rparr>)"

text \<open>
  The mapping \<open>mmap(NULL, fsize, ..., MAP_SHARED, fd, offsize)\<close>: the length in whole
  pages, the addresses it covers, the memory the process sees with the file mapped, and
  the file once the stores in the memory \<open>m\<close> have reached it.
\<close>

definition pages :: "sys \<Rightarrow> locals \<Rightarrow> int" where
  "pages s L = ((fsize L + getpagesize s - 1) div getpagesize s) * getpagesize s"

definition in_pages :: "sys \<Rightarrow> locals \<Rightarrow> int \<Rightarrow> bool" where
  "in_pages s L p \<longleftrightarrow> fptr L \<le> p \<and> p < fptr L + pages s L"

definition memory :: "sys \<Rightarrow> locals \<Rightarrow> byte list \<Rightarrow> byte list" where
  "memory s L file =
     map (\<lambda>k. if in_pages s L (int k) then file ! k else foreign s (int k)) [0..<length file]"

definition written :: "sys \<Rightarrow> locals \<Rightarrow> byte list \<Rightarrow> byte list \<Rightarrow> byte list" where
  "written s L file m =
     map (\<lambda>k. if in_pages s L (int k) then m ! k else file ! k) [0..<length file]"

text \<open>\<open>fixup\<close> returns its \<open>int\<close> (-1, 0 or 1) and the file as it leaves it.\<close>

definition fixup :: "sys \<Rightarrow> byte list \<Rightarrow> bool \<Rightarrow> int \<times> byte list" where
  "fixup s file dry =
     (if \<not> lstat_ok s then (- 1, file)
      else if int (length file) < EOCDR_BASE_SIZE then (- 1, file)
      else
        let L = window s file dry in
        if \<not> open_ok s then (- 1, file)
        else if \<not> mmap_ok s then (- 1, file)
        else
          (case scan L (memory s L file) (startptr L) 3 of
             (res, m) \<Rightarrow> (res, written s L file m)))"

text \<open>The iterations of the loop in a call of \<open>fixup\<close>; none when it returns before the loop.\<close>

definition fixup_visited :: "sys \<Rightarrow> byte list \<Rightarrow> bool \<Rightarrow> (int \<times> nat) list" where
  "fixup_visited s file dry =
     (if \<not> lstat_ok s then []
      else if int (length file) < EOCDR_BASE_SIZE then []
      else
        let L = window s file dry in
        if \<not> open_ok s then []
        else if \<not> mmap_ok s then []
        else visited L (memory s L file) (startptr L) 3)"

text \<open>The memory the loop of a call works on.\<close>

definition seen :: "sys \<Rightarrow> byte list \<Rightarrow> bool \<Rightarrow> byte list" where
  "seen s file dry = memory s (window s file dry) file"

text \<open>The end of the file lies in the mapped pages: every byte from \<open>fptr\<close> on is mapped.\<close>

definition tail_mapped :: "sys \<Rightarrow> byte list \<Rightarrow> bool" where
  "tail_mapped s file \<longleftrightarrow>
     int (length file) \<le> fptr (window s file False) + pages s (window s file False)"

subsection \<open>Little-endian values\<close>

text \<open>
  The value of the two and of the four bytes at \<open>p\<close> as the zip format defines it:
  \<open>p[0] + 2^8 p[1]\<close> and \<open>p[0] + 2^8 p[1] + 2^16 p[2] + 2^24 p[3]\<close>.
\<close>

definition le16 :: "byte list \<Rightarrow> int \<Rightarrow> nat" where
  "le16 m p = unat (deref m p) + 2 ^ 8 * unat (deref m (p + 1))"

definition le32 :: "byte list \<Rightarrow> int \<Rightarrow> nat" where
  "le32 m p = unat (deref m p) + 2 ^ 8 * unat (deref m (p + 1))
     + 2 ^ 16 * unat (deref m (p + 2)) + 2 ^ 24 * unat (deref m (p + 3))"

subsection \<open>Concrete hosts and files\<close>

text \<open>
  A little-endian host with pages of 4096 bytes on which every system call succeeds,
  with zero bytes behind \<open>sig\<close> and outside the mapped pages.
\<close>

definition le_host :: sys where
  "le_host = \<lparr> lstat_ok = True, open_ok = True, mmap_ok = True, getpagesize = 4096,
               host_little_endian = True, frame = (\<lambda>_. 0), foreign = (\<lambda>_. 0) \<rparr>"

text \<open>
  A Zip64 EOCDL (offsets 0 to 19, total number of disks 0 at 16 to 19) followed by an
  EOCDR without comment (offsets 20 to 41).
\<close>

definition archive42 :: "byte list" where
  "archive42 =
     [0x50, 0x4b, 0x06, 0x07, 0, 0, 0, 0, 0, 0, 0, 0, 0, 0, 0, 0, 0, 0, 0, 0,
      0x50, 0x4b, 0x05, 0x06, 0, 0, 0, 0, 0xff, 0xff, 0xff, 0xff,
      0xff, 0xff, 0xff, 0xff, 0xff, 0xff, 0xff, 0xff, 0, 0]"

text \<open>
  The same structures with disk number 6 in both disk fields of the EOCDR and a comment
  of one byte: 43 bytes, the EOCDR at offset 20.
\<close>

definition archive_disk6 :: "byte list" where
  "archive_disk6 =
     [0x50, 0x4b, 0x06, 0x07, 0, 0, 0, 0, 0, 0, 0, 0, 0, 0, 0, 0, 0, 0, 0, 0,
      0x50, 0x4b, 0x05, 0x06, 6, 0, 6, 0, 0xff, 0xff, 0xff, 0xff,
      0xff, 0xff, 0xff, 0xff, 0xff, 0xff, 0xff, 0xff, 1, 0, 0]"

text \<open>
  43 bytes with the EOCDR signature at offset 21 and the bytes 1, 0 where its comment
  length would be: 21 + 22 + 1 is not 43.
\<close>

definition fluke43 :: "byte list" where
  "fluke43 = replicate 21 0 @ [0x50, 0x4b, 0x05, 0x06] @ replicate 16 0 @ [1, 0]"

definition zeros40 :: "byte list" where
  "zeros40 = replicate 40 0"

text \<open>65635 zero bytes in front of \<open>archive42\<close>: 65677 bytes, the EOCDR at offset 65655.\<close>

definition archive65677 :: "byte list" where
  "archive65677 = replicate 65635 0 @ archive42"

text \<open>
  69625 zero bytes in front of \<open>archive42\<close>: 69667 bytes, the EOCDR at offset 69645.
  With pages of 4096 bytes \<open>pageoff\<close> is 4090 and the 17 mapped pages end at 69632.
\<close>

definition archive69667 :: "byte list" where
  "archive69667 = replicate 69625 0 @ archive42"


section \<open>ByteReader\<close>

lemma byte_bound: "unat (b :: byte) < 256"
  using unsigned_less [of b] by simp

lemma get2bytes_le:
  "get2bytes True m p = unat (deref m p) + 2 ^ 8 * unat (deref m (p + 1))"
  using byte_bound [of "deref m p"] byte_bound [of "deref m (p + 1)"]
  by (simp add: get2bytes_def)

lemma get2bytes_be:
  "get2bytes False m p = unat (deref m (p + 1)) + 2 ^ 8 * unat (deref m p)"
  using byte_bound [of "deref m p"] byte_bound [of "deref m (p + 1)"]
  by (simp add: get2bytes_def)

lemma get4bytes_le:
  "get4bytes True m p = unat (deref m p) + 2 ^ 8 * unat (deref m (p + 1))
     + 2 ^ 16 * unat (deref m (p + 2)) + 2 ^ 24 * unat (deref m (p + 3))"
  using byte_bound [of "deref m p"] byte_bound [of "deref m (p + 1)"]
    byte_bound [of "deref m (p + 2)"] byte_bound [of "deref m (p + 3)"]
  by (simp add: get4bytes_def)

lemma get4bytes_be:
  "get4bytes False m p = unat (deref m (p + 3)) + 2 ^ 8 * unat (deref m (p + 2))
     + 2 ^ 16 * unat (deref m (p + 1)) + 2 ^ 24 * unat (deref m p)"
  using byte_bound [of "deref m p"] byte_bound [of "deref m (p + 1)"]
    byte_bound [of "deref m (p + 2)"] byte_bound [of "deref m (p + 3)"]
  by (simp add: get4bytes_def)


text \<open>
  C5: for every buffer and position and under both values of the endianness mode,
  \<open>get2bytes\<close> and \<open>get4bytes\<close> return the little-endian value of the bytes. The code
  does so only when \<open>little_endian\<close> is set (\<open>get2bytes_le\<close>, \<open>get4bytes_le\<close>); with
  the mode cleared it returns the big-endian value: the bytes 1, 0 read as 256 and the
  bytes 1, 0, 0, 0 as \<open>2 ^ 24\<close>, where the little-endian value is 1.
\<close>

theorem get_bytes_big_endian_mode:
  "get2bytes False [1, 0] 0 = 256 \<and> get2bytes True [1, 0] 0 = 1 \<and>
   get4bytes False [1, 0, 0, 0] 0 = 2 ^ 24 \<and> get4bytes True [1, 0, 0, 0] 0 = 1"
  by (simp add: get2bytes_def get4bytes_def deref_def)

section \<open>The loop\<close>

lemma window_fields:
  "little_endian (window s file dry) = host_little_endian s"
  "behind (window s file dry) = frame s"
  "dryrun (window s file dry) = dry"
  by (simp_all add: window_def Let_def)

lemma window_geometry:
  assumes "0 < getpagesize s"
  shows "fptr (window s file dry) + pageoff (window s file dry) + fsize (window s file dry)
           = int (length file)"
    and "0 \<le> fptr (window s file dry)"
    and "0 \<le> pageoff (window s file dry)"
    and "fsize (window s file dry) = min (int (length file)) 65577"
proof -
  let ?o = "int (length file) - 65577"
  have m: "0 \<le> ?o mod getpagesize s" using assms by simp
  have l: "65577 < int (length file) \<Longrightarrow> ?o mod getpagesize s \<le> ?o"
    using assms by (simp add: zmod_le_nonneg_dividend)
  show "fptr (window s file dry) + pageoff (window s file dry) + fsize (window s file dry)
           = int (length file)"
    by (simp add: window_def Let_def)
  show "0 \<le> fptr (window s file dry)"
    using l by (simp add: window_def Let_def)
  show "0 \<le> pageoff (window s file dry)"
    using m by (simp add: window_def Let_def)
  show "fsize (window s file dry) = min (int (length file)) 65577"
    by (simp add: window_def Let_def)
qed

lemma visited_bounds:
  "(p, j) \<in> set (visited L m ptr i) \<Longrightarrow> minptr L \<le> p \<and> p \<le> ptr"
proof (induction L m ptr i rule: visited.induct)
  case (1 L m ptr i)
  show ?case
  proof (cases "minptr L \<le> ptr")
    case False
    with "1.prems" show ?thesis by (simp add: visited.simps [of L m ptr i])
  next
    case True
    show ?thesis
    proof (cases "body L m ptr i")
      case (Continue i')
      with True "1.prems" have "(p, j) = (ptr, i) \<or> (p, j) \<in> set (visited L m (ptr - 1) i')"
        by (simp add: visited.simps [of L m ptr i])
      then show ?thesis using "1.IH" [OF True Continue] True by auto
    next
      case (Break r m')
      with True "1.prems" have "(p, j) = (ptr, i)"
        by (simp add: visited.simps [of L m ptr i])
      then show ?thesis using True by simp
    qed
  qed
qed




lemma scan_exhausted:
  "\<forall>(p, j) \<in> set (visited L m ptr i). \<exists>j'. body L m p j = Continue j' \<Longrightarrow> scan L m ptr i = (0, m)"
proof (induction L m ptr i rule: visited.induct)
  case (1 L m ptr i)
  show ?case
  proof (cases "minptr L \<le> ptr")
    case False
    then show ?thesis by (simp add: scan.simps [of L m ptr i])
  next
    case True
    then have "(ptr, i) \<in> set (visited L m ptr i)" by (simp add: visited.simps [of L m ptr i])
    with "1.prems" obtain i' where Continue: "body L m ptr i = Continue i'" by auto
    have v: "visited L m ptr i = (ptr, i) # visited L m (ptr - 1) i'"
      using True Continue by (simp add: visited.simps [of L m ptr i])
    have "scan L m (ptr - 1) i' = (0, m)"
      using "1.IH" [OF True Continue] "1.prems" v by simp
    then show ?thesis using True Continue by (simp add: scan.simps [of L m ptr i])
  qed
qed

section \<open>What the loop body reads\<close>






lemma get4bytes_cong:
  assumes "deref m' p = deref m p" "deref m' (p + 1) = deref m (p + 1)"
    "deref m' (p + 2) = deref m (p + 2)" "deref m' (p + 3) = deref m (p + 3)"
  shows "get4bytes le m' p = get4bytes le m p"
  using assms by (cases le) (simp_all add: get4bytes_le get4bytes_be)

lemma get2bytes_cong:
  assumes "deref m' p = deref m p" "deref m' (p + 1) = deref m (p + 1)"
  shows "get2bytes le m' p = get2bytes le m p"
  using assms by (cases le) (simp_all add: get2bytes_le get2bytes_be)






lemma sig_at_in: "i < 4 \<Longrightarrow> sig_at x i = sig ! i"
  by (simp add: sig_at_def)


lemma body_Break:
  assumes "body L m ptr i = Break r m'"
  shows "i = 0 \<and> deref m ptr = 0x50 \<and> length_check L m ptr \<and>
    (if get2bytes (little_endian L) m (ptr + 4) \<noteq> get2bytes (little_endian L) m (ptr + 6)
     then r = - 1 \<and> m' = m
     else if get4bytes (little_endian L) m (ptr + 16) \<noteq> 0xffffffff then r = 0 \<and> m' = m
     else get4bytes (little_endian L) m (ptr - 20) = Z64_EOCDL_SIG \<and>
       (if get4bytes (little_endian L) m (ptr - 4) = 0
        then r = 1 \<and> m' = (if dryrun L then m else store m (ptr - 4) 1)
        else r = 0 \<and> m' = m))"
  using assms
  by (auto simp: body_def Let_def sig_at_def sig_def Z64_EOCDL_SIZE_def split: if_splits)





section \<open>The mapping\<close>


lemma length_check_window:
  assumes "0 < getpagesize s"
  shows "length_check (window s file dry) m c \<longleftrightarrow>
     c + 22 + int (get2bytes (host_little_endian s) m (c + 20)) = int (length file)"
  using window_geometry(1) [of s "file" dry] assms
  by (auto simp: length_check_def window_fields EOCDR_BASE_SIZE_def Let_def)

lemma window_ptrs:
  assumes "0 < getpagesize s"
  shows "startptr (window s file dry) = int (length file) - 19"
    and "20 \<le> minptr (window s file dry)"
    and "fptr (window s file dry) + 20 \<le> minptr (window s file dry)"
  using window_geometry [of s "file" dry] assms
  by (simp_all add: startptr_def minptr_def EOCDR_BASE_SIZE_def Z64_EOCDL_SIZE_def)

lemma window_dry:
  "fptr (window s file dry) = fptr (window s file False)"
  "pages s (window s file dry) = pages s (window s file False)"
  "in_pages s (window s file dry) p = in_pages s (window s file False) p"
  by (simp_all add: window_def pages_def in_pages_def Let_def)

lemma memory_length: "length (memory s L file) = length file"
  by (simp add: memory_def)

lemma written_length: "length (written s L file m) = length file"
  by (simp add: written_def)

lemma deref_memory:
  assumes "0 \<le> p" "p < int (length file)"
  shows "deref (memory s L file) p = (if in_pages s L p then deref file p else foreign s p)"
  using assms by (simp add: memory_def deref_def)

lemma written_memory: "written s L file (memory s L file) = file"
  by (rule nth_equalityI) (simp_all add: written_def memory_def)

lemma written_store:
  assumes "in_pages s L q" "0 \<le> q"
  shows "written s L file (store (memory s L file) q v) = store file q v"
proof (rule nth_equalityI)
  show "length (written s L file (store (memory s L file) q v)) = length (store file q v)"
    by (simp add: written_def store_def)
next
  fix k assume "k < length (written s L file (store (memory s L file) q v))"
  then have k: "k < length file" by (simp add: written_def)
  show "written s L file (store (memory s L file) q v) ! k = store file q v ! k"
  proof (cases "k = nat q")
    case True
    then have "in_pages s L (int k)" using assms by simp
    then show ?thesis using k True by (simp add: written_def store_def memory_def)
  next
    case False
    then show ?thesis using k by (simp add: written_def store_def memory_def)
  qed
qed

lemma written_store_foreign:
  assumes "\<not> in_pages s L q" "0 \<le> q"
  shows "written s L file (store (memory s L file) q v) = file"
proof (rule nth_equalityI)
  show "length (written s L file (store (memory s L file) q v)) = length file"
    by (simp add: written_def)
next
  fix k assume "k < length (written s L file (store (memory s L file) q v))"
  then have k: "k < length file" by (simp add: written_def)
  show "written s L file (store (memory s L file) q v) ! k = file ! k"
  proof (cases "k = nat q")
    case True
    then have "\<not> in_pages s L (int k)" using assms by simp
    then show ?thesis using k by (simp add: written_def)
  next
    case False
    then show ?thesis using k by (simp add: written_def store_def memory_def)
  qed
qed

lemma tail_mapped_deref:
  assumes "tail_mapped s file" "0 < getpagesize s"
    and "fptr (window s file dry) \<le> p" "p < int (length file)"
  shows "deref (seen s file dry) p = deref file p"
proof -
  have "0 \<le> p" using window_geometry(2) [OF assms(2), of "file" dry] assms(3) by simp
  moreover have "in_pages s (window s file dry) p"
    using assms(1,3,4) by (simp add: tail_mapped_def in_pages_def window_dry(1,2) [of s "file" dry])
  ultimately show ?thesis using assms(4) by (simp add: seen_def deref_memory)
qed


lemma body_bound:
  "body L m p j = Continue j' \<Longrightarrow> j \<le> 4 \<Longrightarrow> p + 22 \<le> hi + int j \<Longrightarrow>
     j' \<le> 4 \<and> p - 1 + 22 \<le> hi + int j'"
  by (auto simp: body_def Let_def SIG_LEN_def split: if_splits)

lemma body_cong:
  assumes ag: "\<And>p. lo \<le> p \<Longrightarrow> p < hi \<Longrightarrow> deref m2 p = deref m1 p"
    and r: "lo + 20 \<le> ptr" "ptr < hi" "i = 0 \<Longrightarrow> ptr + 22 \<le> hi"
  shows "(\<exists>i'. body L m1 ptr i = Continue i' \<and> body L m2 ptr i = Continue i') \<or>
         (\<exists>res. body L m1 ptr i = Break res m1 \<and> body L m2 ptr i = Break res m2) \<or>
         (\<exists>res. body L m1 ptr i = Break res (store m1 (ptr - 4) 1) \<and>
                body L m2 ptr i = Break res (store m2 (ptr - 4) 1))"
proof -
  have d0: "deref m2 ptr = deref m1 ptr" using ag [of ptr] r(1,2) by simp
  show ?thesis
  proof (cases "i = 0")
    case False
    then show ?thesis by (simp add: body_def d0)
  next
    case True
    let ?le = "little_endian L"
    have d: "\<And>k. - 20 \<le> k \<Longrightarrow> k < 22 \<Longrightarrow> deref m2 (ptr + k) = deref m1 (ptr + k)"
      using r True by (intro ag) auto
    have g20: "get2bytes ?le m2 (ptr + 20) = get2bytes ?le m1 (ptr + 20)"
      using d [of 20] d [of 21] by (intro get2bytes_cong) (simp_all add: add.assoc)
    have g4: "get2bytes ?le m2 (ptr + 4) = get2bytes ?le m1 (ptr + 4)"
      using d [of 4] d [of 5] by (intro get2bytes_cong) (simp_all add: add.assoc)
    have g6: "get2bytes ?le m2 (ptr + 6) = get2bytes ?le m1 (ptr + 6)"
      using d [of 6] d [of 7] by (intro get2bytes_cong) (simp_all add: add.assoc)
    have g16: "get4bytes ?le m2 (ptr + 16) = get4bytes ?le m1 (ptr + 16)"
      using d [of 16] d [of 17] d [of 18] d [of 19]
      by (intro get4bytes_cong) (simp_all add: add.assoc)
    have gz: "get4bytes ?le m2 (ptr - 20) = get4bytes ?le m1 (ptr - 20)"
      using d [of "- 20"] d [of "- 19"] d [of "- 18"] d [of "- 17"]
      by (intro get4bytes_cong) simp_all
    have gn: "get4bytes ?le m2 (ptr - 4) = get4bytes ?le m1 (ptr - 4)"
      using d [of "- 4"] d [of "- 3"] d [of "- 2"] d [of "- 1"]
      by (intro get4bytes_cong) simp_all
    show ?thesis
      by (simp add: body_def Let_def length_check_def Z64_EOCDL_SIZE_def d0 g20 g4 g6 g16 gz gn True)
  qed
qed

lemma scan_cong:
  assumes "\<And>p. lo \<le> p \<Longrightarrow> p < hi \<Longrightarrow> deref m2 p = deref m1 p"
    and "lo + 20 \<le> minptr L" and "i \<le> 4" and "ptr + 22 \<le> hi + int i"
  shows "visited L m2 ptr i = visited L m1 ptr i \<and>
         (\<exists>res. scan L m1 ptr i = (res, m1) \<and> scan L m2 ptr i = (res, m2) \<or>
            (\<exists>q. lo \<le> q \<and> q < hi \<and> scan L m1 ptr i = (res, store m1 q 1) \<and>
                 scan L m2 ptr i = (res, store m2 q 1)))"
  using assms
proof (induction L m1 ptr i rule: visited.induct)
  case (1 L m1 ptr i)
  show ?case
  proof (cases "minptr L \<le> ptr")
    case False
    then show ?thesis
      by (auto simp: visited.simps [of L _ ptr i] scan.simps [of L _ ptr i])
  next
    case True
    have r: "lo + 20 \<le> ptr" "ptr < hi" "i = 0 \<Longrightarrow> ptr + 22 \<le> hi"
      using True "1.prems"(2-4) by simp_all
    from body_cong [of lo hi m2 m1 ptr i L, OF "1.prems"(1) r]
    consider (c) i' where "body L m1 ptr i = Continue i'" "body L m2 ptr i = Continue i'"
      | (b) res where "body L m1 ptr i = Break res m1" "body L m2 ptr i = Break res m2"
      | (w) res where "body L m1 ptr i = Break res (store m1 (ptr - 4) 1)"
          "body L m2 ptr i = Break res (store m2 (ptr - 4) 1)"
      by blast
    then show ?thesis
    proof cases
      case c
      from body_bound [OF c(1) "1.prems"(3,4)]
      have "visited L m2 (ptr - 1) i' = visited L m1 (ptr - 1) i' \<and>
         (\<exists>res. scan L m1 (ptr - 1) i' = (res, m1) \<and> scan L m2 (ptr - 1) i' = (res, m2) \<or>
            (\<exists>q. lo \<le> q \<and> q < hi \<and> scan L m1 (ptr - 1) i' = (res, store m1 q 1) \<and>
                 scan L m2 (ptr - 1) i' = (res, store m2 q 1)))"
        using "1.IH" [OF True c(1) "1.prems"(1,2)] by simp
      then show ?thesis using True c
        by (auto simp: visited.simps [of L _ ptr i] scan.simps [of L _ ptr i])
    next
      case b
      then show ?thesis using True
        by (auto simp: visited.simps [of L _ ptr i] scan.simps [of L _ ptr i])
    next
      case w
      have "lo \<le> ptr - 4 \<and> ptr - 4 < hi" using r by simp
      then show ?thesis using True w
        by (auto simp: visited.simps [of L _ ptr i] scan.simps [of L _ ptr i])
    qed
  qed
qed

lemma fixup_mapped:
  assumes "lstat_ok s" "open_ok s" "mmap_ok s" "EOCDR_BASE_SIZE \<le> int (length file)"
    and ps: "0 < getpagesize s" and tm: "tail_mapped s file"
  shows "fixup s file dry = scan (window s file dry) file (startptr (window s file dry)) 3"
    and "fixup_visited s file dry
           = visited (window s file dry) file (startptr (window s file dry)) 3"
proof -
  let ?W = "window s file dry"
  let ?M = "memory s ?W file"
  have ag: "\<And>p. fptr ?W \<le> p \<Longrightarrow> p < int (length file) \<Longrightarrow> deref ?M p = deref file p"
    using tail_mapped_deref [OF tm ps, of dry] by (simp add: seen_def)
  have "startptr ?W + 22 \<le> int (length file) + int 3"
    using window_ptrs(1) [OF ps, of "file" dry] by simp
  from scan_cong [of "fptr ?W" "int (length file)" ?M "file" ?W 3 "startptr ?W", OF ag
      window_ptrs(3) [OF ps] _ this]
  have v: "visited ?W ?M (startptr ?W) 3 = visited ?W file (startptr ?W) 3"
    and "\<exists>res. scan ?W file (startptr ?W) 3 = (res, file) \<and> scan ?W ?M (startptr ?W) 3 = (res, ?M) \<or>
            (\<exists>q. fptr ?W \<le> q \<and> q < int (length file) \<and>
                 scan ?W file (startptr ?W) 3 = (res, store file q 1) \<and>
                 scan ?W ?M (startptr ?W) 3 = (res, store ?M q 1))"
    by simp_all
  then consider (same) res where "scan ?W file (startptr ?W) 3 = (res, file)"
      "scan ?W ?M (startptr ?W) 3 = (res, ?M)"
    | (stored) res q where "fptr ?W \<le> q" "q < int (length file)"
      "scan ?W file (startptr ?W) 3 = (res, store file q 1)"
      "scan ?W ?M (startptr ?W) 3 = (res, store ?M q 1)"
    by blast
  then show "fixup s file dry = scan ?W file (startptr ?W) 3"
  proof cases
    case same
    then show ?thesis using assms(1-4) by (simp add: fixup_def Let_def written_memory)
  next
    case stored
    have "in_pages s ?W q"
      using stored(1,2) tm by (simp add: tail_mapped_def in_pages_def window_dry(1,2) [of s "file" dry])
    moreover have "0 \<le> q" using stored(1) window_geometry(2) [OF ps, of "file" dry] by simp
    ultimately have "written s ?W file (store ?M q 1) = store file q 1"
      by (rule written_store)
    then show ?thesis using stored assms(1-4) by (simp add: fixup_def Let_def)
  qed
  show "fixup_visited s file dry = visited ?W file (startptr ?W) 3"
    using v assms(1-4) by (simp add: fixup_visited_def Let_def)
qed

section \<open>Invariants of the loop\<close>

text \<open>
  At the head of every iteration \<open>i\<close> is at most 4, the bytes behind the pointer are
  the part of the signature matched so far, and an iteration with \<open>i = 0\<close> is at least
  22 bytes before the end of the file. With the lower end of the range at 20 or above,
  every address the body reads (from \<open>c - 20\<close> up to \<open>c + 21\<close>) is below the file size.
\<close>

lemma body_partial_match:
  assumes b: "body L m p j = Continue j'"
    and inv: "j \<le> 4" "p + 3 \<le> hi + int j"
      "\<forall>d. 0 < d \<and> j + d \<le> 3 \<longrightarrow> deref m (p + int d) = sig ! (j + d)"
  shows "j' \<le> 4 \<and> p - 1 + 3 \<le> hi + int j' \<and>
         (\<forall>d. 0 < d \<and> j' + d \<le> 3 \<longrightarrow> deref m (p - 1 + int d) = sig ! (j' + d))"
proof (cases "deref m p = sig_at (behind L p) j \<and> 0 < j \<and> j < 4")
  case T: True
  then have j': "j' = j - 1" using b by (simp add: body_def)
  have m3: "deref m (p - 1 + int d) = sig ! (j' + d)" if d: "0 < d \<and> j' + d \<le> 3" for d
  proof (cases d)
    case 0
    with d show ?thesis by simp
  next
    case (Suc e)
    have p: "p - 1 + int d = p + int e" and n: "j' + d = j + e" using Suc j' T by simp_all
    have "deref m (p + int e) = sig ! (j + e)"
    proof (cases "e = 0")
      case True
      then show ?thesis using T by (simp add: sig_at_in)
    next
      case False
      then have "0 < e \<and> j + e \<le> 3" using d n by simp
      with inv(3) show ?thesis by blast
    qed
    then show ?thesis by (simp only: p n)
  qed
  have "j' \<le> 4" using j' T by arith
  moreover have "p - 1 + 3 \<le> hi + int j'" using j' T inv(2) by arith
  ultimately show ?thesis using m3 by blast
next
  case False
  then have "j' = 3 \<or> j' = 4 \<and> j = 0"
    using b inv(1) by (auto simp: body_def Let_def SIG_LEN_def split: if_splits)
  then show ?thesis using inv(1,2) by auto
qed

lemma visited_inv:
  assumes "(c, j) \<in> set (visited L m ptr i)"
    and "i \<le> 4" "ptr + 3 \<le> hi + int i"
    and "\<forall>d. 0 < d \<and> i + d \<le> 3 \<longrightarrow> deref m (ptr + int d) = sig ! (i + d)"
  shows "j \<le> 4 \<and> c + 3 \<le> hi + int j \<and>
         (\<forall>d. 0 < d \<and> j + d \<le> 3 \<longrightarrow> deref m (c + int d) = sig ! (j + d))"
  using assms
proof (induction L m ptr i rule: visited.induct)
  case (1 L m ptr i)
  have in_range: "minptr L \<le> ptr"
    using "1.prems"(1) by (cases "minptr L \<le> ptr") (simp_all add: visited.simps [of L m ptr i])
  show ?case
  proof (cases "(c, j) = (ptr, i)")
    case True
    then show ?thesis using "1.prems"(2-4) by simp
  next
    case False
    show ?thesis
    proof (cases "body L m ptr i")
      case (Break r0 m0)
      then have "visited L m ptr i = [(ptr, i)]"
        using in_range by (simp add: visited.simps [of L m ptr i])
      with False "1.prems"(1) show ?thesis by simp
    next
      case (Continue i')
      then have "visited L m ptr i = (ptr, i) # visited L m (ptr - 1) i'"
        using in_range by (simp add: visited.simps [of L m ptr i])
      with False "1.prems"(1) have v: "(c, j) \<in> set (visited L m (ptr - 1) i')" by auto
      from body_partial_match [OF Continue "1.prems"(2-4)]
      show ?thesis using "1.IH" [OF in_range Continue v] by blast
    qed
  qed
qed

lemma fixup_seen:
  assumes "lstat_ok s" "open_ok s" "mmap_ok s" "EOCDR_BASE_SIZE \<le> int (length file)"
  shows "fixup s file dry =
           (case scan (window s file dry) (seen s file dry) (startptr (window s file dry)) 3 of
              (res, m) \<Rightarrow> (res, written s (window s file dry) file m))"
    and "fixup_visited s file dry
           = visited (window s file dry) (seen s file dry) (startptr (window s file dry)) 3"
  using assms by (simp_all add: fixup_def fixup_visited_def seen_def Let_def)

lemma fixup_visited_mem:
  "(c, i) \<in> set (fixup_visited s file dry) \<Longrightarrow>
     lstat_ok s \<and> open_ok s \<and> mmap_ok s \<and> EOCDR_BASE_SIZE \<le> int (length file)"
  by (auto simp: fixup_visited_def Let_def split: if_splits)

lemma fixup_visited_inv:
  assumes "0 < getpagesize s" and "(c, j) \<in> set (fixup_visited s file dry)"
  shows "j \<le> 4" and "fptr (window s file dry) + 20 \<le> c" and "20 \<le> c"
    and "c + 22 \<le> int (length file) + int j"
    and "\<forall>d. 0 < d \<and> j + d \<le> 3 \<longrightarrow> deref (seen s file dry) (c + int d) = sig ! (j + d)"
proof -
  let ?W = "window s file dry"
  let ?M = "seen s file dry"
  from fixup_visited_mem [OF assms(2)]
  have ok: "lstat_ok s" "open_ok s" "mmap_ok s" "EOCDR_BASE_SIZE \<le> int (length file)" by simp_all
  have v: "(c, j) \<in> set (visited ?W ?M (startptr ?W) 3)"
    using assms(2) fixup_seen(2) [OF ok] by simp
  have inv: "j \<le> 4 \<and> c + 3 \<le> startptr ?W + int j \<and>
         (\<forall>d. 0 < d \<and> j + d \<le> 3 \<longrightarrow> deref ?M (c + int d) = sig ! (j + d))"
    by (rule visited_inv [OF v]) simp_all
  then show "j \<le> 4" and "c + 22 \<le> int (length file) + int j"
    and "\<forall>d. 0 < d \<and> j + d \<le> 3 \<longrightarrow> deref ?M (c + int d) = sig ! (j + d)"
    using window_ptrs(1) [OF assms(1), of "file" dry] by simp_all
  show "fptr ?W + 20 \<le> c" "20 \<le> c"
    using visited_bounds [OF v] window_ptrs(2,3) [OF assms(1), of "file" dry] by simp_all
qed

lemma visited_signature:
  assumes "0 < getpagesize s" and "(c, 0) \<in> set (fixup_visited s file dry)"
    and "deref (seen s file dry) c = 0x50"
  shows "map (deref (seen s file dry)) [c, c + 1, c + 2, c + 3] = sig"
    and "20 \<le> c" and "c + 22 \<le> int (length file)"
proof -
  note i = fixup_visited_inv [OF assms(1,2)]
  from i(5) [rule_format, of 1] i(5) [rule_format, of 2] i(5) [rule_format, of 3]
  have "deref (seen s file dry) (c + 1) = 0x4b" "deref (seen s file dry) (c + 2) = 0x05"
    "deref (seen s file dry) (c + 3) = 0x06"
    by (simp_all add: sig_def)
  then show "map (deref (seen s file dry)) [c, c + 1, c + 2, c + 3] = sig"
    using assms(3) by (simp add: sig_def)
  show "20 \<le> c" "c + 22 \<le> int (length file)" using i(3,4) by simp_all
qed

lemma small_file_mapped:
  assumes "0 < getpagesize s" and "(c, j) \<in> set (fixup_visited s file dry)"
    and "length file \<le> 65577"
  shows "mapped (window s file dry) c"
proof -
  from fixup_visited_inv(1,3,4) [OF assms(1,2)] have "20 \<le> c" "c < int (length file)" by simp_all
  then show ?thesis using assms(3) by (simp add: mapped_def window_def Let_def)
qed

lemma small_file_tail_mapped:
  assumes "0 < getpagesize s" and "length file \<le> 65577"
  shows "tail_mapped s file"
proof -
  let ?n = "int (length file)" and ?p = "getpagesize s"
  have "?n + ?p - 1 - (?n + ?p - 1) mod ?p = (?n + ?p - 1) div ?p * ?p"
    by (simp add: minus_mod_eq_div_mult)
  moreover have "(?n + ?p - 1) mod ?p \<le> ?p - 1"
    using assms(1) pos_mod_bound [of ?p "?n + ?p - 1"] by simp
  ultimately have "?n \<le> (?n + ?p - 1) div ?p * ?p" by linarith
  then show ?thesis using assms(2) by (simp add: tail_mapped_def pages_def window_def Let_def)
qed




lemma seen_whole:
  assumes "fptr (window s file dry) = 0" "int (length file) \<le> pages s (window s file dry)"
  shows "seen s file dry = file"
  by (rule nth_equalityI) (use assms in \<open>simp_all add: seen_def memory_def in_pages_def\<close>)

text \<open>The equations that evaluate the model on a concrete file.\<close>

lemmas run =
  fixup_mapped seen_whole tail_mapped_def pages_def window_def startptr_def minptr_def
  EOCDR_BASE_SIZE_def Z64_EOCDL_SIZE_def Z64_EOCDL_SIG_def SIG_LEN_def scan.simps visited.simps
  body_def length_check_def deref_def store_def get2bytes_def get4bytes_def le16_def le32_def
  sig_at_def sig_def Let_def

lemmas run_big = run nth_append list_update_append



section \<open>The patch step\<close>







section \<open>The loop runs out\<close>

text \<open>
  Where no byte of the range is \<open>0x05\<close> the index stays at 2 or 3. This is so for
  \<open>archive69667\<close> with zero bytes outside the mapped pages: the pages end at 69632, in
  the middle of the EOCDL, and the EOCDR at 69645 is not in the memory the loop reads.
\<close>

lemma visited_no_5:
  assumes "(c, j) \<in> set (visited L m ptr i)"
    and "\<forall>p. minptr L \<le> p \<and> p \<le> ptr \<longrightarrow> deref m p \<noteq> 0x05"
    and "i = 2 \<or> i = 3"
  shows "j = 2 \<or> j = 3"
  using assms
proof (induction L m ptr i rule: visited.induct)
  case (1 L m ptr i)
  have in_range: "minptr L \<le> ptr"
    using "1.prems"(1) by (cases "minptr L \<le> ptr") (simp_all add: visited.simps [of L m ptr i])
  then have "deref m ptr \<noteq> 0x05" using "1.prems"(2) by simp
  then have b: "body L m ptr i = Continue 2 \<or> body L m ptr i = Continue 3"
    using "1.prems"(3) by (auto simp: body_def sig_at_def sig_def)
  then obtain i' where i': "body L m ptr i = Continue i'" "i' = 2 \<or> i' = 3" by auto
  then have "visited L m ptr i = (ptr, i) # visited L m (ptr - 1) i'"
    using in_range by (simp add: visited.simps [of L m ptr i])
  with "1.prems"(1) have "(c, j) = (ptr, i) \<or> (c, j) \<in> set (visited L m (ptr - 1) i')" by auto
  then show ?case
  proof
    assume "(c, j) = (ptr, i)"
    then show ?thesis using "1.prems"(3) by simp
  next
    assume v: "(c, j) \<in> set (visited L m (ptr - 1) i')"
    show ?thesis using "1.IH" [OF in_range i'(1) v _ i'(2)] "1.prems"(2) by simp
  qed
qed

lemma archive42_no_5: "k < 7 \<Longrightarrow> archive42 ! k \<noteq> 0x05"
proof -
  assume "k < 7"
  then have "k = 0 \<or> k = 1 \<or> k = 2 \<or> k = 3 \<or> k = 4 \<or> k = 5 \<or> k = 6" by arith
  then show ?thesis by (auto simp: archive42_def)
qed

lemma archive69667_window:
  "fptr (window le_host archive69667 False) = 0"
  "pages le_host (window le_host archive69667 False) = 69632"
  "minptr (window le_host archive69667 False) = 4110"
  "startptr (window le_host archive69667 False) = 69648"
  "length archive69667 = 69667"
  by (simp_all add: window_def pages_def minptr_def startptr_def le_host_def archive69667_def
      archive42_def EOCDR_BASE_SIZE_def Z64_EOCDL_SIZE_def Let_def)

lemma archive69667_seen:
  assumes "4110 \<le> p" "p \<le> 69648"
  shows "deref (seen le_host archive69667 False) p \<noteq> 0x05"
proof (cases "p < 69632")
  case False
  then have "\<not> in_pages le_host (window le_host archive69667 False) p"
    by (simp add: in_pages_def archive69667_window)
  then have "deref (seen le_host archive69667 False) p = foreign le_host p"
    using assms by (simp add: seen_def deref_memory archive69667_window)
  then show ?thesis by (simp add: le_host_def)
next
  case True
  then have "in_pages le_host (window le_host archive69667 False) p"
    using assms by (simp add: in_pages_def archive69667_window)
  then have "deref (seen le_host archive69667 False) p = deref archive69667 p"
    using assms by (simp add: seen_def deref_memory archive69667_window)
  then have d: "deref (seen le_host archive69667 False) p = archive69667 ! nat p"
    by (simp add: deref_def)
  show ?thesis
  proof (cases "nat p < 69625")
    case True
    then show ?thesis using d by (simp add: archive69667_def nth_append)
  next
    case False
    then have "archive69667 ! nat p = archive42 ! (nat p - 69625)"
      by (simp add: archive69667_def nth_append)
    moreover have "nat p - 69625 < 7" using \<open>p < 69632\<close> by simp
    ultimately show ?thesis using d archive42_no_5 by simp
  qed
qed

text \<open>
  C3, as the code has it: for a file of at least 22 bytes that stats, opens and maps, if
  no iteration of the loop has the signature matched at a place where the comment length
  fits the file size, both as the loop reads them in its memory, \<open>fixup\<close> returns 0
  (NoActionNeeded), not -1, and leaves the file as it is. This holds for every file, also
  one whose end lies behind the mapped pages.
\<close>

theorem scan_exhausted_returns_0:
  assumes "lstat_ok s" "open_ok s" "mmap_ok s" "22 \<le> length file" "0 < getpagesize s"
    and "\<forall>(c, i) \<in> set (fixup_visited s file dry).
           \<not> (i = 0 \<and> deref (seen s file dry) c = 0x50 \<and>
              c + 22 + int (get2bytes (host_little_endian s) (seen s file dry) (c + 20))
                = int (length file))"
  shows "fixup s file dry = (0, file)"
proof -
  let ?W = "window s file dry"
  let ?M = "seen s file dry"
  have ok: "lstat_ok s" "open_ok s" "mmap_ok s" "EOCDR_BASE_SIZE \<le> int (length file)"
    using assms(1-4) by (simp_all add: EOCDR_BASE_SIZE_def)
  have "\<forall>(p, j) \<in> set (visited ?W ?M (startptr ?W) 3). \<exists>j'. body ?W ?M p j = Continue j'"
  proof (clarify)
    fix p j assume v: "(p, j) \<in> set (visited ?W ?M (startptr ?W) 3)"
    show "\<exists>j'. body ?W ?M p j = Continue j'"
    proof (cases "body ?W ?M p j")
      case (Continue j')
      then show ?thesis by simp
    next
      case (Break r m')
      from body_Break [OF Break] have "j = 0 \<and> deref ?M p = 0x50 \<and> length_check ?W ?M p"
        by simp
      with v assms(6) show ?thesis
        using fixup_seen(2) [OF ok, of dry] length_check_window [OF assms(5), of "file" dry ?M p]
        by auto
    qed
  qed
  from scan_exhausted [OF this] show ?thesis
    using fixup_seen(1) [OF ok, of dry] by (simp add: seen_def written_memory)
qed

text \<open>
  The archive of 69667 bytes is such a file: its end lies behind the mapped pages, the
  loop starts at 69648 and finds no candidate, and the call returns 0 and leaves the
  total number of disks at 0.
\<close>

theorem scan_exhausted_returns_0_witness:
  "lstat_ok le_host \<and> open_ok le_host \<and> mmap_ok le_host \<and> 22 \<le> length archive69667 \<and>
   0 < getpagesize le_host \<and> \<not> tail_mapped le_host archive69667 \<and>
   fixup le_host archive69667 False = (0, archive69667)"
proof -
  let ?W = "window le_host archive69667 False"
  let ?M = "seen le_host archive69667 False"
  have h: "lstat_ok le_host" "open_ok le_host" "mmap_ok le_host" "22 \<le> length archive69667"
    "0 < getpagesize le_host"
    by (simp_all add: le_host_def archive69667_window)
  have ok: "EOCDR_BASE_SIZE \<le> int (length archive69667)"
    by (simp add: EOCDR_BASE_SIZE_def archive69667_window)
  have n: "\<not> tail_mapped le_host archive69667"
    by (simp add: tail_mapped_def archive69667_window)
  have "\<forall>p. minptr ?W \<le> p \<and> p \<le> startptr ?W \<longrightarrow> deref ?M p \<noteq> 0x05"
    using archive69667_seen by (simp add: archive69667_window)
  then have r: "j = 2 \<or> j = 3" if "(c, j) \<in> set (fixup_visited le_host archive69667 False)" for c j
    using that visited_no_5 [of c j ?W ?M "startptr ?W" 3] fixup_seen(2) [OF h(1-3) ok, of False]
    by simp
  have "\<forall>(c, i) \<in> set (fixup_visited le_host archive69667 False).
           \<not> (i = 0 \<and> deref ?M c = 0x50 \<and>
              c + 22 + int (get2bytes (host_little_endian le_host) ?M (c + 20))
                = int (length archive69667))"
    by (auto dest!: r)
  from scan_exhausted_returns_0 [OF h this] h n show ?thesis by blast
qed

text \<open>
  C3 as stated fails: on 40 zero bytes every system call succeeds, the loop runs over
  its whole range (offsets 21 and 20) without a match, and \<open>fixup\<close> returns 0, which is
  not the error value -1.
\<close>

theorem scan_exhausted_not_failed:
  "lstat_ok le_host \<and> open_ok le_host \<and> mmap_ok le_host \<and> 22 \<le> length zeros40 \<and>
   fixup_visited le_host zeros40 False = [(21, 3), (20, 3)] \<and>
   fst (fixup le_host zeros40 False) = 0 \<and>
   fst (fixup le_host zeros40 False) \<noteq> - 1"
  by (simp add: run le_host_def zeros40_def)

section \<open>The comment-length cross-check\<close>



section \<open>Running \<open>fixup\<close> twice\<close>



section \<open>Defects of the loop\<close>

text \<open>
  C6: on a mismatch part-way through a match the scanner is to take the mismatching byte
  as the possible last byte of a new candidate, so that the validated signature nearest
  the end of the file is found. The code sets \<open>i = 3\<close> and moves on to the byte before.
  In \<open>archive_disk6\<close> the EOCDR at offset 20 has its signature, a comment length that
  fits the file size, equal disk fields, the Zip64 offset, the EOCDL signature in front
  and 0 disks; the loop matches the byte 6 at offset 24 (the disk number), fails at
  offset 23 (the last byte of the signature), and goes through 22, 21 and 20 with
  \<open>i = 3\<close>: nothing is found and the file is left as it is with result 0.
\<close>

theorem overlapping_signature_missed:
  "map (deref archive_disk6) [20, 21, 22, 23] = sig \<and>
   20 + 22 + int (get2bytes True archive_disk6 (20 + 20)) = int (length archive_disk6) \<and>
   get2bytes True archive_disk6 (20 + 4) = get2bytes True archive_disk6 (20 + 6) \<and>
   get4bytes True archive_disk6 (20 + 16) = 0xffffffff \<and>
   get4bytes True archive_disk6 (20 - 20) = Z64_EOCDL_SIG \<and>
   get4bytes True archive_disk6 (20 - 4) = 0 \<and>
   fixup_visited le_host archive_disk6 False = [(24, 3), (23, 2), (22, 3), (21, 3), (20, 3)] \<and>
   fixup le_host archive_disk6 False = (0, archive_disk6)"
  by (simp add: run le_host_def archive_disk6_def)

text \<open>
  C10: the index \<open>i\<close> into \<open>sig\<close> is to stay within 0 to 3. In \<open>fluke43\<close> the
  signature at offset 21 fails the comment-length check, the body continues with
  \<open>i = SIG_LEN = 4\<close>, and the next iteration, at offset 20, reads \<open>sig[4]\<close>, behind the
  four elements of the array.
\<close>

theorem index_4_after_rejection:
  "fixup_visited le_host fluke43 False = [(24, 3), (23, 2), (22, 1), (21, 0), (20, 4)] \<and>
   body (window le_host fluke43 False) fluke43 21 0 = Continue 4 \<and>
   \<not> 4 < length sig"
  by (simp add: run_big le_host_def fluke43_def)

text \<open>
  C7: every byte read or written is to lie in the mapping, \<open>fsize\<close> bytes from the
  page-aligned offset. For \<open>archive65677\<close> with pages of 4096 bytes the mapping is the
  offsets 0 to 65576, while the loop starts at offset 65658 and its four iterations, the
  fields of the EOCDR at 65655, the EOCDL signature at 65635 and the byte stored at 65651
  are all behind the end of the mapping.
\<close>

theorem scan_outside_mapping:
  "fptr (window le_host archive65677 False) = 0 \<and>
   fsize (window le_host archive65677 False) = 65577 \<and>
   fixup_visited le_host archive65677 False = [(65658, 3), (65657, 2), (65656, 1), (65655, 0)] \<and>
   \<not> mapped (window le_host archive65677 False) 65658 \<and>
   \<not> mapped (window le_host archive65677 False) 65655 \<and>
   \<not> mapped (window le_host archive65677 False) (65655 - 20) \<and>
   \<not> mapped (window le_host archive65677 False) (65655 - 4) \<and>
   fixup le_host archive65677 False = (1, store archive65677 (65655 - 4) 1)"
  by (simp add: run_big mapped_def le_host_def archive65677_def archive42_def)

end
